theory Spec2Isabelle
  imports Main
begin

section \<open>Data model of the Tic Tac Toe board component\<close>

text \<open>
  The component \<^verbatim>\<open>GameBoard.vue\<close> declares
  \<^verbatim>\<open>type Player = 'X' | 'O'\<close> and \<^verbatim>\<open>type Cell = Player | ''\<close>.
  A player is a two-valued datatype; a cell is a \<open>player option\<close>, where \<open>None\<close> is the
  empty string \<^verbatim>\<open>''\<close>. The same option type models \<^verbatim>\<open>Player | null\<close>, the type of
  the evaluator's \<^verbatim>\<open>winner\<close> field, with \<open>None\<close> for \<^verbatim>\<open>null\<close>.
  (The constructors are not called \<open>X\<close> and \<open>O\<close> because \<open>O\<close> is relation composition.)
\<close>

datatype player = PlayerX | PlayerO

type_synonym cell = "player option"

text \<open>
  Reading a JavaScript array never fails: \<^verbatim>\<open>squares[i]\<close> is \<^verbatim>\<open>undefined\<close> when
  \<open>i\<close> is not an index of the array (negative, or at least its length). The read returns
  a \<open>cell option\<close> whose \<open>None\<close> is \<^verbatim>\<open>undefined\<close>. Indices are the integers among
  JavaScript's numbers.
\<close>

definition js_get :: "cell list \<Rightarrow> int \<Rightarrow> cell option" where
  "js_get squares i =
     (if 0 \<le> i \<and> i < int (length squares) then Some (squares ! nat i) else None)"

text \<open>
  Truthiness of a read value: \<^verbatim>\<open>undefined\<close> and \<^verbatim>\<open>''\<close> are falsy, the two marks
  are truthy.
\<close>

fun truthy :: "cell option \<Rightarrow> bool" where
  "truthy (Some (Some p)) = True"
| "truthy _ = False"

text \<open>
  The cast \<^verbatim>\<open>squares[a] as Player\<close> has no run-time effect; it is only evaluated on a
  truthy value, which is a mark.
\<close>

fun as_player :: "cell option \<Rightarrow> player option" where
  "as_player (Some c) = c"
| "as_player None = None"

record eval_result =
  winner :: "player option"
  line :: "int list"

record scores =
  scoreX :: nat
  scoreO :: nat
  draws :: nat

text \<open>
  The reactive state object. The score counters are JavaScript numbers (IEEE-754 doubles)
  that start at 0 and only change by \<^verbatim>\<open>+= 1\<close> and by the reset to 0, so they hold
  non-negative integers; they are modelled as natural numbers, with the rounding of
  \<^verbatim>\<open>+= 1\<close> written out in \<open>js_add_one\<close> below.
\<close>

record state =
  board :: "cell list"
  xIsNext :: bool
  scores :: scores
  gameOver :: bool
  winningLine :: "int list"

section \<open>The evaluator\<close>

definition lines :: "(int \<times> int \<times> int) list" where
  "lines =
     [(0, 1, 2), (3, 4, 5), (6, 7, 8),
      (0, 3, 6), (1, 4, 7), (2, 5, 8),
      (0, 4, 8), (2, 4, 6)]"

text \<open>The \<^verbatim>\<open>for (const [a, b, c] of lines)\<close> loop, returning from its first hit.\<close>

fun scan_lines :: "(int \<times> int \<times> int) list \<Rightarrow> cell list \<Rightarrow> eval_result" where
  "scan_lines [] squares = \<lparr>winner = None, line = []\<rparr>"
| "scan_lines ((a, b, c) # rest) squares =
     (if truthy (js_get squares a) \<and> js_get squares a = js_get squares b
         \<and> js_get squares a = js_get squares c
      then \<lparr>winner = as_player (js_get squares a), line = [a, b, c]\<rparr>
      else scan_lines rest squares)"

definition calculateWinner :: "cell list \<Rightarrow> eval_result" where
  "calculateWinner squares = scan_lines lines squares"

definition isBoardFull :: "cell list \<Rightarrow> bool" where
  "isBoardFull squares = list_all (\<lambda>c. c \<noteq> None) squares"

section \<open>The state and its operations\<close>

definition initial_state :: state where
  "initial_state =
     \<lparr>board = replicate 9 None, xIsNext = True,
      scores = \<lparr>scoreX = 0, scoreO = 0, draws = 0\<rparr>,
      gameOver = False, winningLine = []\<rparr>"

definition currentPlayer :: "state \<Rightarrow> player" where
  "currentPlayer s = (if xIsNext s then PlayerX else PlayerO)"

text \<open>The computed \<^verbatim>\<open>result\<close>: the status derived from the board alone.\<close>

datatype game_result = Win player "int list" | Draw | Ongoing

definition result :: "state \<Rightarrow> game_result" where
  "result s =
     (let res = calculateWinner (board s) in
      case winner res of
        Some w \<Rightarrow> Win w (line res)
      | None \<Rightarrow> if isBoardFull (board s) then Draw else Ongoing)"

text \<open>
  \<^verbatim>\<open>n += 1\<close> on a double holding the non-negative integer \<open>n\<close>. Below \<open>2 ^ 53\<close> the sum
  is exact. From \<open>2 ^ 53\<close> to below \<open>2 ^ 54\<close> a double holds the even integers only, and
  \<open>n + 1\<close> lies halfway between \<open>n\<close> and \<open>n + 2\<close>: it is rounded to the one whose
  significand \<open>n div 2\<close> (or \<open>n div 2 + 1\<close>) is even. From \<open>2 ^ 54\<close> on, \<open>n + 1\<close> is
  rounded back to \<open>n\<close>. In particular a counter that has reached \<open>2 ^ 53\<close> stays there.
\<close>

definition js_add_one :: "nat \<Rightarrow> nat" where
  "js_add_one n =
     (if n < 2 ^ 53 then n + 1
      else if n < 2 ^ 54 \<and> odd (n div 2) then n + 2
      else n)"

text \<open>\<^verbatim>\<open>state.scores[evalResult.winner] += 1\<close>\<close>

fun increment_score :: "player \<Rightarrow> scores \<Rightarrow> scores" where
  "increment_score PlayerX sc = sc\<lparr>scoreX := js_add_one (scoreX sc)\<rparr>"
| "increment_score PlayerO sc = sc\<lparr>scoreO := js_add_one (scoreO sc)\<rparr>"

text \<open>
  \<^verbatim>\<open>handleCellClick(index)\<close>, the operation the specification calls \<open>applyMove\<close>.
  The guard \<^verbatim>\<open>state.board[index] !== ''\<close> holds for every read value but the empty
  string, so also for \<^verbatim>\<open>undefined\<close>. Past the guard the index is one of the board's, so
  the assignment \<^verbatim>\<open>state.board[index] = currentPlayer.value\<close> is an update in place.
\<close>

definition handleCellClick :: "int \<Rightarrow> state \<Rightarrow> state" where
  "handleCellClick index s =
     (if js_get (board s) index \<noteq> Some None \<or> gameOver s then s
      else
        let squares = (board s)[nat index := Some (currentPlayer s)];
            evalResult = calculateWinner squares
        in case winner evalResult of
             Some w \<Rightarrow>
               s\<lparr>board := squares, gameOver := True, winningLine := line evalResult,
                 scores := increment_score w (scores s)\<rparr>
           | None \<Rightarrow>
               if isBoardFull squares
               then s\<lparr>board := squares, gameOver := True,
                      scores := (scores s)\<lparr>draws := js_add_one (draws (scores s))\<rparr>\<rparr>
               else s\<lparr>board := squares, xIsNext := \<not> xIsNext s\<rparr>)"

definition newRound :: "state \<Rightarrow> state" where
  "newRound s =
     s\<lparr>board := replicate 9 None,
       xIsNext := (if \<not> gameOver s then xIsNext s else True),
       gameOver := False, winningLine := []\<rparr>"

definition resetAll :: "state \<Rightarrow> state" where
  "resetAll s =
     s\<lparr>board := replicate 9 None, xIsNext := True, gameOver := False, winningLine := [],
       scores := \<lparr>scoreX = 0, scoreO = 0, draws = 0\<rparr>\<rparr>"

text \<open>
  The three commands of the component, and the state reached from the initial one by a
  sequence of them.
\<close>

datatype command = ApplyMove int | StartNewRound | ResetAll

fun step :: "state \<Rightarrow> command \<Rightarrow> state" where
  "step s (ApplyMove index) = handleCellClick index s"
| "step s StartNewRound = newRound s"
| "step s ResetAll = resetAll s"

definition run :: "command list \<Rightarrow> state" where
  "run cs = foldl step initial_state cs"

text \<open>The number of marks on a board, and of one player's marks.\<close>

definition moveCount :: "cell list \<Rightarrow> nat" where
  "moveCount squares = length (filter (\<lambda>c. c \<noteq> None) squares)"

definition marksOf :: "player \<Rightarrow> cell list \<Rightarrow> nat" where
  "marksOf p squares = length (filter (\<lambda>c. c = Some p) squares)"

text \<open>
  A line of the board is won when its three cells are equal and not empty; this is the
  specification's wording, read on a board of nine cells.
\<close>

fun three_in_row :: "cell list \<Rightarrow> int \<times> int \<times> int \<Rightarrow> bool" where
  "three_in_row squares (a, b, c) =
     (squares ! nat a \<noteq> None \<and> squares ! nat a = squares ! nat b
        \<and> squares ! nat a = squares ! nat c)"

section \<open>Auxiliary notions for the proofs\<close>

text \<open>The test of the evaluator's loop body on one line.\<close>

definition line_hit :: "cell list \<Rightarrow> int \<times> int \<times> int \<Rightarrow> bool" where
  "line_hit squares l = (case l of (a, b, c) \<Rightarrow>
     truthy (js_get squares a) \<and> js_get squares a = js_get squares b
       \<and> js_get squares a = js_get squares c)"


text \<open>\<^verbatim>\<open>state.scores[p]\<close>, the score counter of a player.\<close>

fun score_of :: "player \<Rightarrow> scores \<Rightarrow> nat" where
  "score_of PlayerX sc = scoreX sc"
| "score_of PlayerO sc = scoreO sc"


text \<open>
  The cached fields agree with the board: nine cells, \<open>gameOver\<close> exactly on a won or
  full board, and \<open>winningLine\<close> the line the evaluator reports.
\<close>

definition consistent :: "state \<Rightarrow> bool" where
  "consistent s \<longleftrightarrow>
     length (board s) = 9
     \<and> (gameOver s \<longleftrightarrow> winner (calculateWinner (board s)) \<noteq> None \<or> isBoardFull (board s))
     \<and> winningLine s = line (calculateWinner (board s))"

text \<open>
  The flag \<open>xIsNext\<close> against the parity of the move count: they agree while the game
  runs, and the move that ends a game leaves the flag as it was.
\<close>

definition turn_parity :: "state \<Rightarrow> bool" where
  "turn_parity s \<longleftrightarrow> (xIsNext s \<longleftrightarrow> (even (moveCount (board s)) \<noteq> gameOver s))"

text \<open>
  The marks of the two players in a game that X began: equal when X is to move, X one
  ahead when O is to move; at the end of a game the flag names the last mover.
\<close>

definition mark_balance :: "state \<Rightarrow> bool" where
  "mark_balance s \<longleftrightarrow>
     marksOf PlayerX (board s) =
       (if gameOver s = xIsNext s then marksOf PlayerO (board s) + 1 else marksOf PlayerO (board s))"

text \<open>
  A command sequence in which every new round is started when the game is over or X is
  to move.
\<close>

fun restarts_keep_turn :: "state \<Rightarrow> command list \<Rightarrow> bool" where
  "restarts_keep_turn s [] = True"
| "restarts_keep_turn s (c # cs) =
     ((c = StartNewRound \<longrightarrow> gameOver s \<or> xIsNext s) \<and> restarts_keep_turn (step s c) cs)"

text \<open>
  The state of a running game in which X has two marks in the top row and the X counter
  has reached \<open>2 ^ 53\<close>.
\<close>

definition x_counter_at_limit :: state where
  "x_counter_at_limit =
     \<lparr>board = [Some PlayerX, Some PlayerX, None, None, Some PlayerO, Some PlayerO,
               None, None, None],
      xIsNext = True, scores = \<lparr>scoreX = 2 ^ 53, scoreO = 0, draws = 0\<rparr>,
      gameOver = False, winningLine = []\<rparr>"

section \<open>Properties of the evaluator\<close>

lemma truthy_iff: "truthy v \<longleftrightarrow> (\<exists>p. v = Some (Some p))"
  by (cases v rule: truthy.cases) auto

lemma scan_lines_Cons:
  "scan_lines (l # rest) squares =
     (if line_hit squares l
      then (case l of (a, b, c) \<Rightarrow> \<lparr>winner = as_player (js_get squares a), line = [a, b, c]\<rparr>)
      else scan_lines rest squares)"
proof (cases l)
  case (fields a b c)
  show ?thesis unfolding fields line_hit_def by (simp only: scan_lines.simps prod.case)
qed

lemma scan_lines_none:
  "(\<forall>l \<in> set ls. \<not> line_hit squares l) \<Longrightarrow> scan_lines ls squares = \<lparr>winner = None, line = []\<rparr>"
  by (induction ls) (simp_all add: scan_lines_Cons)

lemma scan_lines_first:
  "k < length ls \<Longrightarrow> line_hit squares (ls ! k) \<Longrightarrow> (\<forall>j<k. \<not> line_hit squares (ls ! j)) \<Longrightarrow>
   scan_lines ls squares =
     (case ls ! k of (a, b, c) \<Rightarrow> \<lparr>winner = as_player (js_get squares a), line = [a, b, c]\<rparr>)"
proof (induction ls arbitrary: k)
  case Nil
  then show ?case by simp
next
  case (Cons l ls)
  show ?case
  proof (cases k)
    case 0
    with Cons.prems show ?thesis by (simp add: scan_lines_Cons)
  next
    case (Suc k')
    from Cons.prems(3) Suc have "\<not> line_hit squares ((l # ls) ! 0)" by blast
    then have nl: "\<not> line_hit squares l" by simp
    have "\<forall>j<k'. \<not> line_hit squares (ls ! j)"
    proof (intro allI impI)
      fix j assume "j < k'"
      then have "Suc j < k" using Suc by simp
      with Cons.prems(3) have "\<not> line_hit squares ((l # ls) ! Suc j)" by blast
      then show "\<not> line_hit squares (ls ! j)" by simp
    qed
    with Cons.IH[of k'] Cons.prems Suc nl show ?thesis
      by (simp add: scan_lines_Cons)
  qed
qed

lemma lines_in_range:
  "(a, b, c) \<in> set lines \<Longrightarrow> 0 \<le> a \<and> a < 9 \<and> 0 \<le> b \<and> b < 9 \<and> 0 \<le> c \<and> c < 9 \<and> a \<noteq> b \<and> a \<noteq> c \<and> b \<noteq> c"
  by (auto simp: lines_def)

lemma line_hit_three_in_row:
  assumes "length squares = 9" "l \<in> set lines"
  shows "line_hit squares l \<longleftrightarrow> three_in_row squares l"
proof -
  obtain a b c where l: "l = (a, b, c)" by (cases l)
  with assms(2) lines_in_range[of a b c] have r: "0 \<le> a" "a < 9" "0 \<le> b" "b < 9" "0 \<le> c" "c < 9" by auto
  show ?thesis using r assms(1)
    by (auto simp: l line_hit_def js_get_def truthy_iff)
qed

lemma as_player_get:
  "length squares = 9 \<Longrightarrow> (a, b, c) \<in> set lines \<Longrightarrow> as_player (js_get squares a) = squares ! nat a"
  using lines_in_range[of a b c] by (simp add: js_get_def)

section \<open>The consistency invariant\<close>

lemma js_get_empty_iff:
  "js_get squares i = Some None \<longleftrightarrow> 0 \<le> i \<and> nat i < length squares \<and> squares ! nat i = None"
  by (auto simp: js_get_def)

lemma js_get_mark_iff:
  "js_get squares i = Some (Some w) \<longleftrightarrow> 0 \<le> i \<and> nat i < length squares \<and> squares ! nat i = Some w"
  by (auto simp: js_get_def)

lemma scan_lines_winner_line:
  "winner (scan_lines ls squares) = None \<longleftrightarrow> line (scan_lines ls squares) = []"
  by (induction ls) (auto simp: scan_lines_Cons line_hit_def truthy_iff)

lemma scan_lines_Some:
  "winner (scan_lines ls squares) = Some w \<Longrightarrow>
   \<exists>a b c. (a, b, c) \<in> set ls \<and> line (scan_lines ls squares) = [a, b, c]
     \<and> js_get squares a = Some (Some w) \<and> js_get squares b = Some (Some w)
     \<and> js_get squares c = Some (Some w)"
proof (induction ls)
  case Nil
  then show ?case by simp
next
  case (Cons l ls)
  show ?case
  proof (cases "line_hit squares l")
    case True
    obtain a b c where l: "l = (a, b, c)" by (cases l)
    from True obtain p where p: "js_get squares a = Some (Some p)"
      and eq: "js_get squares b = js_get squares a" "js_get squares c = js_get squares a"
      by (auto simp: l line_hit_def truthy_iff)
    have r: "scan_lines (l # ls) squares = \<lparr>winner = Some p, line = [a, b, c]\<rparr>"
      using True by (simp add: scan_lines_Cons l p)
    with Cons.prems have "p = w" by simp
    with r p eq have "(a, b, c) \<in> set (l # ls) \<and> line (scan_lines (l # ls) squares) = [a, b, c]
       \<and> js_get squares a = Some (Some w) \<and> js_get squares b = Some (Some w)
       \<and> js_get squares c = Some (Some w)"
      by (simp add: l)
    then show ?thesis by blast
  next
    case False
    with Cons show ?thesis by (auto simp: scan_lines_Cons)
  qed
qed

lemma calculateWinner_winner_line:
  "winner (calculateWinner squares) = None \<longleftrightarrow> line (calculateWinner squares) = []"
  by (simp add: calculateWinner_def scan_lines_winner_line)

lemma calculateWinner_Some:
  assumes "winner (calculateWinner squares) = Some w"
  shows "\<exists>a b c. (a, b, c) \<in> set lines \<and> line (calculateWinner squares) = [a, b, c]
     \<and> nat a < length squares \<and> nat b < length squares \<and> nat c < length squares
     \<and> nat a \<noteq> nat b \<and> nat a \<noteq> nat c \<and> nat b \<noteq> nat c
     \<and> squares ! nat a = Some w \<and> squares ! nat b = Some w \<and> squares ! nat c = Some w"
proof -
  from scan_lines_Some[of lines squares w] assms
  obtain a b c where m: "(a, b, c) \<in> set lines"
    and l: "line (calculateWinner squares) = [a, b, c]"
    and g: "js_get squares a = Some (Some w)" "js_get squares b = Some (Some w)"
       "js_get squares c = Some (Some w)"
    by (auto simp: calculateWinner_def)
  from lines_in_range[OF m] have "nat a \<noteq> nat b \<and> nat a \<noteq> nat c \<and> nat b \<noteq> nat c"
    by auto
  with m l g show ?thesis by (auto simp: js_get_mark_iff)
qed

lemma calculateWinner_empty_board:
  "calculateWinner (replicate 9 None) = \<lparr>winner = None, line = []\<rparr>"
  by (simp add: calculateWinner_def lines_def js_get_def)

lemma isBoardFull_empty_board: "\<not> isBoardFull (replicate 9 None)"
  by (simp add: isBoardFull_def list_all_iff)

lemma consistent_initial: "consistent initial_state"
  by (simp add: consistent_def initial_state_def calculateWinner_empty_board isBoardFull_empty_board)

lemma consistent_newRound: "consistent (newRound s)"
  by (simp add: consistent_def newRound_def calculateWinner_empty_board isBoardFull_empty_board)

lemma consistent_resetAll: "consistent (resetAll s)"
  by (simp add: consistent_def resetAll_def calculateWinner_empty_board isBoardFull_empty_board)

lemma consistent_handleCellClick:
  assumes "consistent s"
  shows "consistent (handleCellClick i s)"
proof (cases "js_get (board s) i \<noteq> Some None \<or> gameOver s")
  case True
  with assms show ?thesis by (simp add: handleCellClick_def)
next
  case False
  with assms have old: "winner (calculateWinner (board s)) = None" "winningLine s = []"
    by (auto simp: consistent_def calculateWinner_winner_line)
  from assms have len: "length (board s) = 9" by (simp add: consistent_def)
  define squares where "squares = (board s)[nat i := Some (currentPlayer s)]"
  show ?thesis
  proof (cases "winner (calculateWinner squares)")
    case (Some w)
    with False len show ?thesis
      by (simp add: handleCellClick_def Let_def consistent_def squares_def)
  next
    case None
    then have "line (calculateWinner squares) = []"
      by (simp add: calculateWinner_winner_line)
    with None False len old show ?thesis
      by (simp add: handleCellClick_def Let_def consistent_def squares_def)
  qed
qed

lemma consistent_step: "consistent s \<Longrightarrow> consistent (step s c)"
  by (cases c) (simp_all add: consistent_handleCellClick consistent_newRound consistent_resetAll)

lemma run_snoc: "run (cs @ [c]) = step (run cs) c"
  by (simp add: run_def)

lemma consistent_run: "consistent (run cs)"
  by (induction cs rule: rev_induct)
     (simp_all add: run_snoc consistent_step, simp add: run_def consistent_initial)

text \<open>
  In a reachable state the status computed from the board is ongoing exactly when the
  flag \<open>gameOver\<close> is clear, so the guard of a move can be read either way.
\<close>

lemma run_ongoing_iff: "result (run cs) = Ongoing \<longleftrightarrow> \<not> gameOver (run cs)"
  using consistent_run[of cs]
  by (simp add: consistent_def result_def Let_def split: option.splits)

lemma isBoardFull_iff: "isBoardFull squares \<longleftrightarrow> None \<notin> set squares"
  unfolding isBoardFull_def list_all_iff
proof
  assume h: "\<forall>c\<in>set squares. c \<noteq> None"
  show "None \<notin> set squares"
  proof
    assume "None \<in> set squares"
    with h have "(None :: cell) \<noteq> None" by (rule bspec)
    then show False by simp
  qed
next
  assume h: "None \<notin> set squares"
  show "\<forall>c\<in>set squares. c \<noteq> None"
  proof
    fix c assume m: "c \<in> set squares"
    show "c \<noteq> None"
    proof
      assume "c = None"
      with m h show False by simp
    qed
  qed
qed

lemma empty_board_cells:
  "replicate 9 None = [None, None, None, None, None, None, None, None, None]"
  by (simp add: eval_nat_numeral)

lemma scan_lines_None:
  "winner (scan_lines ls squares) = None \<Longrightarrow> \<forall>l \<in> set ls. \<not> line_hit squares l"
proof (induction ls)
  case Nil
  then show ?case by simp
next
  case (Cons l ls)
  obtain a b c where l: "l = (a, b, c)" by (cases l)
  have "\<not> line_hit squares l"
  proof
    assume h: "line_hit squares l"
    then obtain p where "js_get squares a = Some (Some p)"
      by (auto simp: l line_hit_def truthy_iff)
    with h Cons.prems show False by (simp add: scan_lines_Cons l)
  qed
  with Cons show ?case by (simp add: scan_lines_Cons)
qed

lemma calculateWinner_None:
  assumes "length squares = 9" and "winner (calculateWinner squares) = None"
  shows "\<forall>l \<in> set lines. \<not> three_in_row squares l"
  using scan_lines_None[of lines squares] assms line_hit_three_in_row[OF assms(1)]
  by (simp add: calculateWinner_def)

lemma initial_state_cells:
  "initial_state =
     \<lparr>board = [None, None, None, None, None, None, None, None, None], xIsNext = True,
      scores = \<lparr>scoreX = 0, scoreO = 0, draws = 0\<rparr>,
      gameOver = False, winningLine = []\<rparr>"
  by (simp add: initial_state_def eval_nat_numeral)

lemmas run_eval =
  run_def initial_state_cells handleCellClick_def newRound_def resetAll_def Let_def js_get_def
  calculateWinner_def lines_def isBoardFull_def currentPlayer_def js_add_one_def
  empty_board_cells

lemma scenario1_run:
  "run [ApplyMove 0, ApplyMove 4, ApplyMove 1, ApplyMove 5, ApplyMove 2] =
     \<lparr>board = [Some PlayerX, Some PlayerX, Some PlayerX, None, Some PlayerO, Some PlayerO,
               None, None, None],
      xIsNext = True, scores = \<lparr>scoreX = 1, scoreO = 0, draws = 0\<rparr>,
      gameOver = True, winningLine = [0, 1, 2]\<rparr>"
  by (simp add: run_eval)

lemma scenario2_run:
  "run [ApplyMove 0, ApplyMove 1, ApplyMove 2, ApplyMove 4, ApplyMove 3, ApplyMove 5,
        ApplyMove 7, ApplyMove 6, ApplyMove 8] =
     \<lparr>board = [Some PlayerX, Some PlayerO, Some PlayerX, Some PlayerX, Some PlayerO,
               Some PlayerO, Some PlayerO, Some PlayerX, Some PlayerX],
      xIsNext = True, scores = \<lparr>scoreX = 0, scoreO = 0, draws = 1\<rparr>,
      gameOver = True, winningLine = []\<rparr>"
  by (simp add: run_eval)

lemma before_draw_run:
  "run [ApplyMove 0, ApplyMove 1, ApplyMove 2, ApplyMove 4, ApplyMove 3, ApplyMove 5,
        ApplyMove 7, ApplyMove 6] =
     \<lparr>board = [Some PlayerX, Some PlayerO, Some PlayerX, Some PlayerX, Some PlayerO,
               Some PlayerO, Some PlayerO, Some PlayerX, None],
      xIsNext = True, scores = \<lparr>scoreX = 0, scoreO = 0, draws = 0\<rparr>,
      gameOver = False, winningLine = []\<rparr>"
  by (simp add: run_eval)

lemma before_win_run:
  "run [ApplyMove 0, ApplyMove 4, ApplyMove 1, ApplyMove 5] =
     \<lparr>board = [Some PlayerX, Some PlayerX, None, None, Some PlayerO, Some PlayerO,
               None, None, None],
      xIsNext = True, scores = \<lparr>scoreX = 0, scoreO = 0, draws = 0\<rparr>,
      gameOver = False, winningLine = []\<rparr>"
  by (simp add: run_eval)

section \<open>Counting marks\<close>

lemma length_filter_update_gain:
  "i < length xs \<Longrightarrow> \<not> P (xs ! i) \<Longrightarrow> P v \<Longrightarrow>
   length (filter P (xs[i := v])) = Suc (length (filter P xs))"
proof (induction xs arbitrary: i)
  case Nil
  then show ?case by simp
next
  case (Cons x xs)
  then show ?case by (cases i) simp_all
qed

lemma length_filter_update_same:
  "\<not> P (xs ! i) \<Longrightarrow> \<not> P v \<Longrightarrow> length (filter P (xs[i := v])) = length (filter P xs)"
proof (induction xs arbitrary: i)
  case Nil
  then show ?case by simp
next
  case (Cons x xs)
  then show ?case by (cases i) simp_all
qed

lemma moveCount_place:
  "i < length squares \<Longrightarrow> squares ! i = None \<Longrightarrow>
   moveCount (squares[i := Some p]) = Suc (moveCount squares)"
  by (simp add: moveCount_def length_filter_update_gain)

lemma marksOf_place:
  "i < length squares \<Longrightarrow> squares ! i = None \<Longrightarrow>
   marksOf q (squares[i := Some p]) = (if q = p then Suc (marksOf q squares) else marksOf q squares)"
  by (simp add: marksOf_def length_filter_update_gain length_filter_update_same)

lemma moveCount_marksOf: "moveCount squares = marksOf PlayerX squares + marksOf PlayerO squares"
proof (induction squares)
  case Nil
  then show ?case by (simp add: moveCount_def marksOf_def)
next
  case (Cons c squares)
  then show ?case
  proof (cases c)
    case None
    with Cons show ?thesis by (simp add: moveCount_def marksOf_def)
  next
    case (Some p)
    with Cons show ?thesis by (cases p) (simp_all add: moveCount_def marksOf_def)
  qed
qed

lemma three_marks:
  assumes "i < length squares" "j < length squares" "k < length squares"
    and "i \<noteq> j" "i \<noteq> k" "j \<noteq> k"
    and "squares ! i = Some w" "squares ! j = Some w" "squares ! k = Some w"
  shows "3 \<le> marksOf w squares"
proof -
  let ?S = "{n. n < length squares \<and> squares ! n = Some w}"
  have "{i, j, k} \<subseteq> ?S" using assms by simp
  moreover have "finite ?S" by simp
  ultimately have "card {i, j, k} \<le> card ?S" by (rule card_mono[rotated])
  moreover have "card {i, j, k} = 3" using assms(4-6) by simp
  ultimately show ?thesis by (simp add: marksOf_def length_filter_conv_card)
qed

lemma winner_three_marks:
  "winner (calculateWinner squares) = Some w \<Longrightarrow> 3 \<le> marksOf w squares"
  using calculateWinner_Some[of squares w] three_marks[of _ squares _ _ w] by blast

lemma moveCount_empty_board: "moveCount (replicate 9 None) = 0"
  by (simp add: moveCount_def)

lemma marksOf_empty_board: "marksOf p (replicate 9 None) = 0"
  by (simp add: marksOf_def)

lemma handleCellClick_rejected:
  "js_get (board s) i \<noteq> Some None \<or> gameOver s \<Longrightarrow> handleCellClick i s = s"
  by (simp add: handleCellClick_def)

lemma handleCellClick_win:
  assumes "js_get (board s) i = Some None" "\<not> gameOver s"
    and "winner (calculateWinner ((board s)[nat i := Some (currentPlayer s)])) = Some w"
  shows "handleCellClick i s =
     s\<lparr>board := (board s)[nat i := Some (currentPlayer s)], gameOver := True,
       winningLine := line (calculateWinner ((board s)[nat i := Some (currentPlayer s)])),
       scores := increment_score w (scores s)\<rparr>"
  using assms by (simp add: handleCellClick_def Let_def)

lemma handleCellClick_draw:
  assumes "js_get (board s) i = Some None" "\<not> gameOver s"
    and "winner (calculateWinner ((board s)[nat i := Some (currentPlayer s)])) = None"
    and "isBoardFull ((board s)[nat i := Some (currentPlayer s)])"
  shows "handleCellClick i s =
     s\<lparr>board := (board s)[nat i := Some (currentPlayer s)], gameOver := True,
       scores := (scores s)\<lparr>draws := js_add_one (draws (scores s))\<rparr>\<rparr>"
  using assms by (simp add: handleCellClick_def Let_def)

lemma handleCellClick_next:
  assumes "js_get (board s) i = Some None" "\<not> gameOver s"
    and "winner (calculateWinner ((board s)[nat i := Some (currentPlayer s)])) = None"
    and "\<not> isBoardFull ((board s)[nat i := Some (currentPlayer s)])"
  shows "handleCellClick i s =
     s\<lparr>board := (board s)[nat i := Some (currentPlayer s)], xIsNext := \<not> xIsNext s\<rparr>"
  using assms by (simp add: handleCellClick_def Let_def)

lemma handleCellClick_accepted:
  assumes "js_get (board s) i = Some None" "\<not> gameOver s"
  shows "board (handleCellClick i s) = (board s)[nat i := Some (currentPlayer s)]
    \<and> (xIsNext (handleCellClick i s) = (if gameOver (handleCellClick i s) then xIsNext s else \<not> xIsNext s))"
proof (cases "winner (calculateWinner ((board s)[nat i := Some (currentPlayer s)]))")
  case None
  then show ?thesis
    using assms handleCellClick_draw[of s i] handleCellClick_next[of s i]
    by (cases "isBoardFull ((board s)[nat i := Some (currentPlayer s)])") simp_all
next
  case (Some w)
  then show ?thesis using assms handleCellClick_win[of s i w] by simp
qed

lemma turn_parity_handleCellClick:
  assumes "turn_parity s"
  shows "turn_parity (handleCellClick i s)"
proof (cases "js_get (board s) i \<noteq> Some None \<or> gameOver s")
  case True
  with assms show ?thesis by (simp add: handleCellClick_rejected)
next
  case False
  then have ok: "js_get (board s) i = Some None" "\<not> gameOver s" by simp_all
  then have "moveCount ((board s)[nat i := Some (currentPlayer s)]) = Suc (moveCount (board s))"
    by (simp add: js_get_empty_iff moveCount_place)
  with handleCellClick_accepted[OF ok] assms ok(2) show ?thesis
    by (auto simp: turn_parity_def)
qed

lemma mark_balance_handleCellClick:
  assumes "mark_balance s"
  shows "mark_balance (handleCellClick i s)"
proof (cases "js_get (board s) i \<noteq> Some None \<or> gameOver s")
  case True
  with assms show ?thesis by (simp add: handleCellClick_rejected)
next
  case False
  then have ok: "js_get (board s) i = Some None" "\<not> gameOver s" by simp_all
  then have "\<And>q. marksOf q ((board s)[nat i := Some (currentPlayer s)]) =
      (if q = currentPlayer s then Suc (marksOf q (board s)) else marksOf q (board s))"
    by (simp add: js_get_empty_iff marksOf_place)
  with handleCellClick_accepted[OF ok] assms ok(2) show ?thesis
    by (auto simp: mark_balance_def currentPlayer_def)
qed

lemma turn_parity_initial: "turn_parity initial_state"
  by (simp add: turn_parity_def initial_state_def moveCount_empty_board)

lemma mark_balance_initial: "mark_balance initial_state"
  by (simp add: mark_balance_def initial_state_def marksOf_empty_board)

lemma turn_parity_foldl:
  "turn_parity s \<Longrightarrow> restarts_keep_turn s cs \<Longrightarrow> turn_parity (foldl step s cs)"
proof (induction cs arbitrary: s)
  case Nil
  then show ?case by simp
next
  case (Cons c cs)
  have "turn_parity (step s c)"
  proof (cases c)
    case (ApplyMove i)
    with Cons.prems(1) show ?thesis by (simp add: turn_parity_handleCellClick)
  next
    case StartNewRound
    with Cons.prems show ?thesis
      by (auto simp: turn_parity_def newRound_def moveCount_empty_board)
  next
    case ResetAll
    then show ?thesis by (simp add: turn_parity_def resetAll_def moveCount_empty_board)
  qed
  with Cons.IH[of "step s c"] Cons.prems(2) show ?case by simp
qed

lemma mark_balance_moves: "mark_balance (run (map ApplyMove moves))"
proof (induction moves rule: rev_induct)
  case Nil
  then show ?case by (simp add: run_def mark_balance_initial)
next
  case (snoc i moves)
  then show ?case by (simp add: run_snoc mark_balance_handleCellClick)
qed

lemma js_add_one_exact: "n < 2 ^ 53 \<Longrightarrow> js_add_one n = n + 1"
  by (simp add: js_add_one_def)

lemma js_add_one_stuck: "js_add_one (2 ^ 53) = 2 ^ 53"
  by (simp add: js_add_one_def)


lemma increment_score_of:
  "score_of p (increment_score w sc) =
     (if p = w then js_add_one (score_of p sc) else score_of p sc)"
  by (cases p; cases w) simp_all

lemma increment_score_draws: "draws (increment_score w sc) = draws sc"
  by (cases w) simp_all

section \<open>The claims\<close>

text \<open>
  C1, as amended. On a board of nine cells, in a state whose game is not over, a move on an
  index from 0 to 8 whose cell is empty writes the current player's mark at that index and
  re-evaluates the board. If the evaluator reports a winner, \<open>gameOver\<close> is set,
  \<open>winningLine\<close> becomes the reported line (one of the eight lines, three equal non-empty
  cells holding the winner's mark), the winner's score grows by 1 provided it is below
  \<open>2 ^ 53\<close>, and the other two counters stay. Otherwise no line holds three equal marks;
  if no cell of the board is empty, \<open>gameOver\<close> is set, the draw counter grows by 1
  provided it is below \<open>2 ^ 53\<close>, and the two score counters stay. Otherwise the active
  player toggles, and neither the scores nor \<open>gameOver\<close> change.
\<close>

theorem handleCellClick_valid_move:
  assumes "length (board s) = 9" and "0 \<le> i" and "i \<le> 8"
    and "board s ! nat i = None" and "\<not> gameOver s"
  shows "let squares = (board s)[nat i := Some (currentPlayer s)]; s' = handleCellClick i s in
     board s' = squares \<and> squares ! nat i = Some (currentPlayer s)
     \<and> (case winner (calculateWinner squares) of
          Some w \<Rightarrow>
            gameOver s' \<and> winningLine s' = line (calculateWinner squares)
            \<and> (\<exists>a b c. winningLine s' = [a, b, c] \<and> (a, b, c) \<in> set lines
                  \<and> three_in_row squares (a, b, c) \<and> squares ! nat a = Some w)
            \<and> (score_of w (scores s) < 2 ^ 53 \<longrightarrow>
                  score_of w (scores s') = score_of w (scores s) + 1)
            \<and> (\<forall>p. p \<noteq> w \<longrightarrow> score_of p (scores s') = score_of p (scores s))
            \<and> draws (scores s') = draws (scores s)
        | None \<Rightarrow>
            (\<forall>l \<in> set lines. \<not> three_in_row squares l)
            \<and> (if None \<notin> set squares
               then gameOver s'
                 \<and> (draws (scores s) < 2 ^ 53 \<longrightarrow> draws (scores s') = draws (scores s) + 1)
                 \<and> scoreX (scores s') = scoreX (scores s)
                 \<and> scoreO (scores s') = scoreO (scores s)
               else xIsNext s' = (\<not> xIsNext s) \<and> currentPlayer s' \<noteq> currentPlayer s
                 \<and> scores s' = scores s \<and> gameOver s' = gameOver s))"
proof -
  define squares where "squares = (board s)[nat i := Some (currentPlayer s)]"
  have ok: "js_get (board s) i = Some None" "\<not> gameOver s"
    using assms by (simp_all add: js_get_empty_iff)
  have len: "length squares = 9" using assms(1) by (simp add: squares_def)
  have b: "board (handleCellClick i s) = squares"
    using handleCellClick_accepted[OF ok] by (simp add: squares_def)
  have m: "squares ! nat i = Some (currentPlayer s)"
    using assms by (simp add: squares_def)
  have rest: "case winner (calculateWinner squares) of
          Some w \<Rightarrow>
            gameOver (handleCellClick i s)
            \<and> winningLine (handleCellClick i s) = line (calculateWinner squares)
            \<and> (\<exists>a b c. winningLine (handleCellClick i s) = [a, b, c] \<and> (a, b, c) \<in> set lines
                  \<and> three_in_row squares (a, b, c) \<and> squares ! nat a = Some w)
            \<and> (score_of w (scores s) < 2 ^ 53 \<longrightarrow>
                  score_of w (scores (handleCellClick i s)) = score_of w (scores s) + 1)
            \<and> (\<forall>p. p \<noteq> w \<longrightarrow> score_of p (scores (handleCellClick i s)) = score_of p (scores s))
            \<and> draws (scores (handleCellClick i s)) = draws (scores s)
        | None \<Rightarrow>
            (\<forall>l \<in> set lines. \<not> three_in_row squares l)
            \<and> (if None \<notin> set squares
               then gameOver (handleCellClick i s)
                 \<and> (draws (scores s) < 2 ^ 53 \<longrightarrow>
                      draws (scores (handleCellClick i s)) = draws (scores s) + 1)
                 \<and> scoreX (scores (handleCellClick i s)) = scoreX (scores s)
                 \<and> scoreO (scores (handleCellClick i s)) = scoreO (scores s)
               else xIsNext (handleCellClick i s) = (\<not> xIsNext s)
                 \<and> currentPlayer (handleCellClick i s) \<noteq> currentPlayer s
                 \<and> scores (handleCellClick i s) = scores s
                 \<and> gameOver (handleCellClick i s) = gameOver s)"
  proof (cases "winner (calculateWinner squares)")
    case None
    have nl: "\<forall>l \<in> set lines. \<not> three_in_row squares l"
      using len None by (rule calculateWinner_None)
    show ?thesis
    proof (cases "isBoardFull squares")
      case True
      then have full: "None \<notin> set squares" by (simp add: isBoardFull_iff)
      have h: "handleCellClick i s =
         s\<lparr>board := squares, gameOver := True,
           scores := (scores s)\<lparr>draws := js_add_one (draws (scores s))\<rparr>\<rparr>"
        using handleCellClick_draw[OF ok] None True by (simp add: squares_def)
      show ?thesis using nl full by (simp add: None h js_add_one_exact)
    next
      case False
      then have notfull: "None \<in> set squares" by (simp add: isBoardFull_iff)
      have h: "handleCellClick i s = s\<lparr>board := squares, xIsNext := \<not> xIsNext s\<rparr>"
        using handleCellClick_next[OF ok] None False by (simp add: squares_def)
      show ?thesis using nl notfull ok(2) by (simp add: None h currentPlayer_def)
    qed
  next
    case (Some w)
    from calculateWinner_Some[OF Some]
    obtain a b c where l: "(a, b, c) \<in> set lines" "line (calculateWinner squares) = [a, b, c]"
      "squares ! nat a = Some w" "squares ! nat b = Some w" "squares ! nat c = Some w"
      by blast
    then have line_ok: "\<exists>a b c. line (calculateWinner squares) = [a, b, c] \<and> (a, b, c) \<in> set lines
        \<and> three_in_row squares (a, b, c) \<and> squares ! nat a = Some w"
      by auto
    have h: "handleCellClick i s =
       s\<lparr>board := squares, gameOver := True, winningLine := line (calculateWinner squares),
         scores := increment_score w (scores s)\<rparr>"
      using handleCellClick_win[OF ok, of w] Some by (simp add: squares_def)
    show ?thesis
      using line_ok
      by (simp add: Some h increment_score_of increment_score_draws js_add_one_exact)
  qed
  from b m rest show ?thesis unfolding Let_def squares_def by (intro conjI)
qed

theorem handleCellClick_valid_move_witness:
  "length (board (run [ApplyMove 0, ApplyMove 4, ApplyMove 1, ApplyMove 5])) = 9
   \<and> (0::int) \<le> 2 \<and> (2::int) \<le> 8
   \<and> board (run [ApplyMove 0, ApplyMove 4, ApplyMove 1, ApplyMove 5]) ! nat 2 = None
   \<and> \<not> gameOver (run [ApplyMove 0, ApplyMove 4, ApplyMove 1, ApplyMove 5])
   \<and> gameOver (handleCellClick 2 (run [ApplyMove 0, ApplyMove 4, ApplyMove 1, ApplyMove 5]))
   \<and> winningLine (handleCellClick 2 (run [ApplyMove 0, ApplyMove 4, ApplyMove 1, ApplyMove 5]))
       = [0, 1, 2]
   \<and> score_of PlayerX
        (scores (handleCellClick 2 (run [ApplyMove 0, ApplyMove 4, ApplyMove 1, ApplyMove 5]))) = 1
   \<and> length (board (run [ApplyMove 0, ApplyMove 1, ApplyMove 2, ApplyMove 4, ApplyMove 3,
        ApplyMove 5, ApplyMove 7, ApplyMove 6])) = 9
   \<and> (0::int) \<le> 8 \<and> (8::int) \<le> 8
   \<and> board (run [ApplyMove 0, ApplyMove 1, ApplyMove 2, ApplyMove 4, ApplyMove 3,
        ApplyMove 5, ApplyMove 7, ApplyMove 6]) ! nat 8 = None
   \<and> \<not> gameOver (run [ApplyMove 0, ApplyMove 1, ApplyMove 2, ApplyMove 4, ApplyMove 3,
        ApplyMove 5, ApplyMove 7, ApplyMove 6])
   \<and> gameOver (handleCellClick 8 (run [ApplyMove 0, ApplyMove 1, ApplyMove 2, ApplyMove 4,
        ApplyMove 3, ApplyMove 5, ApplyMove 7, ApplyMove 6]))
   \<and> draws (scores (handleCellClick 8 (run [ApplyMove 0, ApplyMove 1, ApplyMove 2, ApplyMove 4,
        ApplyMove 3, ApplyMove 5, ApplyMove 7, ApplyMove 6]))) = 1
   \<and> length (board initial_state) = 9 \<and> (0::int) \<le> 4 \<and> (4::int) \<le> 8
   \<and> board initial_state ! nat 4 = None \<and> \<not> gameOver initial_state
   \<and> \<not> gameOver (handleCellClick 4 initial_state)
   \<and> currentPlayer (handleCellClick 4 initial_state) = PlayerO
   \<and> scores (handleCellClick 4 initial_state) = scores initial_state"
proof -
  define s where "s = run [ApplyMove 0, ApplyMove 4, ApplyMove 1, ApplyMove 5]"
  define d where "d = run [ApplyMove 0, ApplyMove 1, ApplyMove 2, ApplyMove 4, ApplyMove 3,
        ApplyMove 5, ApplyMove 7, ApplyMove 6]"
  note r = before_win_run[folded s_def]
  note q = before_draw_run[folded d_def]
  have h: "length (board s) = 9" "(0::int) \<le> 2" "(2::int) \<le> 8" "board s ! nat 2 = None"
    "\<not> gameOver s"
    by (simp_all add: r)
  have cw: "calculateWinner ((board s)[nat 2 := Some (currentPlayer s)])
      = \<lparr>winner = Some PlayerX, line = [0, 1, 2]\<rparr>"
    by (simp add: r currentPlayer_def calculateWinner_def lines_def js_get_def)
  from handleCellClick_valid_move[OF h] cw
  have win: "gameOver (handleCellClick 2 s) \<and> winningLine (handleCellClick 2 s) = [0, 1, 2]
    \<and> score_of PlayerX (scores (handleCellClick 2 s)) = 1"
    by (simp add: Let_def r)
  have k: "length (board d) = 9" "(0::int) \<le> 8" "(8::int) \<le> 8" "board d ! nat 8 = None"
    "\<not> gameOver d"
    by (simp_all add: q)
  have cd: "calculateWinner ((board d)[nat 8 := Some (currentPlayer d)])
      = \<lparr>winner = None, line = []\<rparr>"
    by (simp add: q currentPlayer_def calculateWinner_def lines_def js_get_def)
  have full: "None \<notin> set ((board d)[nat 8 := Some (currentPlayer d)])"
    by (simp add: q currentPlayer_def)
  from handleCellClick_valid_move[OF k] cd full
  have draw: "gameOver (handleCellClick 8 d) \<and> draws (scores (handleCellClick 8 d)) = 1"
    by (simp add: Let_def q)
  have n: "length (board initial_state) = 9" "(0::int) \<le> 4" "(4::int) \<le> 8"
    "board initial_state ! nat 4 = None" "\<not> gameOver initial_state"
    by (simp_all add: initial_state_cells)
  have cn: "calculateWinner ((board initial_state)[nat 4 := Some (currentPlayer initial_state)])
      = \<lparr>winner = None, line = []\<rparr>"
    by (simp add: initial_state_cells currentPlayer_def calculateWinner_def lines_def js_get_def)
  have notfull: "None \<in> set ((board initial_state)[nat 4 := Some (currentPlayer initial_state)])"
    by (simp add: initial_state_cells)
  from handleCellClick_valid_move[OF n] cn notfull
  have nxt: "\<not> gameOver (handleCellClick 4 initial_state)
    \<and> currentPlayer (handleCellClick 4 initial_state) = PlayerO
    \<and> scores (handleCellClick 4 initial_state) = scores initial_state"
    by (simp add: Let_def initial_state_cells currentPlayer_def)
  from h win k draw n nxt show ?thesis unfolding s_def d_def by simp
qed

text \<open>
  C1 as stated fails where the text says the winner's score grows by 1. The counters are
  doubles: in a running game whose X counter has reached \<open>2 ^ 53\<close>, X completes the top
  row on an empty cell and the X counter keeps its value.
\<close>

theorem handleCellClick_valid_move_counterexample:
  "length (board x_counter_at_limit) = 9
   \<and> board x_counter_at_limit ! nat 2 = None
   \<and> \<not> gameOver x_counter_at_limit
   \<and> winner (calculateWinner
        ((board x_counter_at_limit)[nat 2 := Some (currentPlayer x_counter_at_limit)]))
       = Some PlayerX
   \<and> score_of PlayerX (scores (handleCellClick 2 x_counter_at_limit))
       \<noteq> score_of PlayerX (scores x_counter_at_limit) + 1"
  by (simp add: x_counter_at_limit_def run_eval)

text \<open>
  C2. On a board of nine cells, a move on an index from 0 to 8 whose cell is occupied, or
  in a state whose game is over, returns the state unchanged. The operation has no failing
  branch.
\<close>

theorem occupied_or_terminal_is_noop:
  assumes "length (board s) = 9" and "0 \<le> i" and "i \<le> 8"
    and "board s ! nat i \<noteq> None \<or> gameOver s"
  shows "handleCellClick i s = s"
  using assms by (auto simp: handleCellClick_def js_get_def)

theorem occupied_or_terminal_is_noop_witness:
  "length (board (run [ApplyMove 0])) = 9 \<and> (0::int) \<le> 0 \<and> (0::int) \<le> 8
   \<and> board (run [ApplyMove 0]) ! nat 0 = Some PlayerX
   \<and> handleCellClick 0 (run [ApplyMove 0]) = run [ApplyMove 0]"
proof -
  have r: "run [ApplyMove 0] =
     \<lparr>board = [Some PlayerX, None, None, None, None, None, None, None, None],
      xIsNext = False, scores = \<lparr>scoreX = 0, scoreO = 0, draws = 0\<rparr>,
      gameOver = False, winningLine = []\<rparr>"
    by (simp add: run_eval)
  have h: "length (board (run [ApplyMove 0])) = 9" "(0::int) \<le> 0" "(0::int) \<le> 8"
    "board (run [ApplyMove 0]) ! nat 0 = Some PlayerX"
    by (simp_all add: r)
  then have "board (run [ApplyMove 0]) ! nat 0 \<noteq> None \<or> gameOver (run [ApplyMove 0])"
    by simp
  from occupied_or_terminal_is_noop[OF h(1-3) this] h show ?thesis by simp
qed

text \<open>
  C3. \<open>calculateWinner\<close> returns a value on every board of nine cells. It checks the eight
  lines in the order rows \<open>(0,1,2)\<close>, \<open>(3,4,5)\<close>, \<open>(6,7,8)\<close>, columns \<open>(0,3,6)\<close>,
  \<open>(1,4,7)\<close>, \<open>(2,5,8)\<close>, diagonals \<open>(0,4,8)\<close>, \<open>(2,4,6)\<close>: when line number \<open>k\<close> has
  three equal non-empty cells and no line before it has, the result is that line with the
  mark of its first cell as winner; when no line has, the result is no winner and the empty
  line.
\<close>

theorem calculateWinner_first_line:
  assumes "length squares = 9"
  shows "lines = [(0, 1, 2), (3, 4, 5), (6, 7, 8), (0, 3, 6), (1, 4, 7), (2, 5, 8), (0, 4, 8), (2, 4, 6)]
    \<and> (\<forall>k<8. three_in_row squares (lines ! k) \<and> (\<forall>j<k. \<not> three_in_row squares (lines ! j)) \<longrightarrow>
          calculateWinner squares =
            (case lines ! k of (a, b, c) \<Rightarrow> \<lparr>winner = squares ! nat a, line = [a, b, c]\<rparr>))
    \<and> ((\<forall>k<8. \<not> three_in_row squares (lines ! k)) \<longrightarrow>
          calculateWinner squares = \<lparr>winner = None, line = []\<rparr>)"
proof (intro conjI allI impI)
  show "lines = [(0, 1, 2), (3, 4, 5), (6, 7, 8), (0, 3, 6), (1, 4, 7), (2, 5, 8), (0, 4, 8), (2, 4, 6)]"
    by (simp add: lines_def)
next
  fix k :: nat
  assume k: "k < 8"
    and h: "three_in_row squares (lines ! k) \<and> (\<forall>j<k. \<not> three_in_row squares (lines ! j))"
  have len: "length lines = 8" by (simp add: lines_def)
  have mem: "\<And>j. j < 8 \<Longrightarrow> lines ! j \<in> set lines" using len by simp
  have hk: "line_hit squares (lines ! k)"
    using h k mem line_hit_three_in_row[OF assms] by blast
  have hj: "\<forall>j<k. \<not> line_hit squares (lines ! j)"
    using h k mem line_hit_three_in_row[OF assms] by (meson less_trans)
  obtain a b c where l: "lines ! k = (a, b, c)" by (cases "lines ! k")
  have "(a, b, c) \<in> set lines" using mem[OF k] l by simp
  then have "as_player (js_get squares a) = squares ! nat a"
    by (rule as_player_get[OF assms])
  with scan_lines_first[of k lines squares] hk hj k len l
  show "calculateWinner squares =
      (case lines ! k of (a, b, c) \<Rightarrow> \<lparr>winner = squares ! nat a, line = [a, b, c]\<rparr>)"
    by (simp add: calculateWinner_def)
next
  assume h: "\<forall>k<8. \<not> three_in_row squares (lines ! k)"
  have len: "length lines = 8" by (simp add: lines_def)
  have "\<forall>l \<in> set lines. \<not> line_hit squares l"
  proof
    fix l assume m: "l \<in> set lines"
    then obtain k where "k < 8" "lines ! k = l" using len by (metis in_set_conv_nth)
    with h have "\<not> three_in_row squares l" by blast
    with line_hit_three_in_row[OF assms m] show "\<not> line_hit squares l" by simp
  qed
  then show "calculateWinner squares = \<lparr>winner = None, line = []\<rparr>"
    by (simp add: calculateWinner_def scan_lines_none)
qed

theorem calculateWinner_first_line_witness:
  "length [Some PlayerO, Some PlayerX, Some PlayerX, Some PlayerO, Some PlayerX, None,
           Some PlayerO, None, Some PlayerX] = 9
   \<and> calculateWinner [Some PlayerO, Some PlayerX, Some PlayerX, Some PlayerO, Some PlayerX, None,
           Some PlayerO, None, Some PlayerX] = \<lparr>winner = Some PlayerO, line = [0, 3, 6]\<rparr>"
proof -
  define sq :: "cell list" where
    "sq = [Some PlayerO, Some PlayerX, Some PlayerX, Some PlayerO, Some PlayerX, None,
           Some PlayerO, None, Some PlayerX]"
  have len: "length sq = 9" by (simp add: sq_def)
  have hit: "three_in_row sq (lines ! 3) \<and> (\<forall>j<3. \<not> three_in_row sq (lines ! j))"
    by (simp add: sq_def lines_def All_less_Suc eval_nat_numeral)
  have "calculateWinner sq =
      (case lines ! 3 of (a, b, c) \<Rightarrow> \<lparr>winner = sq ! nat a, line = [a, b, c]\<rparr>)"
    using calculateWinner_first_line[OF len] hit by simp
  then have "calculateWinner sq = \<lparr>winner = Some PlayerO, line = [0, 3, 6]\<rparr>"
    by (simp add: sq_def lines_def)
  with len show ?thesis unfolding sq_def by simp
qed

text \<open>
  C4. In every state reached from the initial state by a sequence of moves, new rounds and
  resets, the cached fields agree with the board of nine cells. The status computed from
  the board is exactly one of win, draw and ongoing: a win when the evaluator reports a
  winner, a draw when it reports none and no cell is empty, ongoing when it reports none
  and a cell is empty. \<open>gameOver\<close> holds if and only if the board has a winner or no
  empty cell. \<open>winningLine\<close> is non-empty if and only if the board has a winner, and then
  it is one of the eight lines and its three cells hold the winner's mark; without a winner
  no line holds three equal marks.
\<close>

theorem cached_fields_consistent:
  "length (board (run cs)) = 9
   \<and> (case result (run cs) of
        Win w l \<Rightarrow> winner (calculateWinner (board (run cs))) = Some w
      | Draw \<Rightarrow> winner (calculateWinner (board (run cs))) = None \<and> None \<notin> set (board (run cs))
      | Ongoing \<Rightarrow> winner (calculateWinner (board (run cs))) = None \<and> None \<in> set (board (run cs)))
   \<and> (gameOver (run cs) \<longleftrightarrow>
        winner (calculateWinner (board (run cs))) \<noteq> None \<or> None \<notin> set (board (run cs)))
   \<and> (winningLine (run cs) \<noteq> [] \<longleftrightarrow> winner (calculateWinner (board (run cs))) \<noteq> None)
   \<and> (\<forall>w. winner (calculateWinner (board (run cs))) = Some w \<longrightarrow>
        (\<exists>a b c. winningLine (run cs) = [a, b, c] \<and> (a, b, c) \<in> set lines
           \<and> board (run cs) ! nat a = Some w \<and> board (run cs) ! nat b = Some w
           \<and> board (run cs) ! nat c = Some w))
   \<and> (winner (calculateWinner (board (run cs))) = None \<longrightarrow>
        (\<forall>l \<in> set lines. \<not> three_in_row (board (run cs)) l))"
proof -
  define s where "s = run cs"
  have c: "consistent s" unfolding s_def by (rule consistent_run)
  then have 0: "length (board s) = 9" by (simp add: consistent_def)
  have 1: "case result s of
        Win w l \<Rightarrow> winner (calculateWinner (board s)) = Some w
      | Draw \<Rightarrow> winner (calculateWinner (board s)) = None \<and> None \<notin> set (board s)
      | Ongoing \<Rightarrow> winner (calculateWinner (board s)) = None \<and> None \<in> set (board s)"
    by (simp add: result_def Let_def isBoardFull_iff split: option.splits)
  have 2: "gameOver s \<longleftrightarrow> winner (calculateWinner (board s)) \<noteq> None \<or> None \<notin> set (board s)"
    using c by (simp add: consistent_def isBoardFull_iff)
  have 3: "winningLine s \<noteq> [] \<longleftrightarrow> winner (calculateWinner (board s)) \<noteq> None"
    using c by (simp add: consistent_def calculateWinner_winner_line)
  have 4: "\<forall>w. winner (calculateWinner (board s)) = Some w \<longrightarrow>
        (\<exists>a b c. winningLine s = [a, b, c] \<and> (a, b, c) \<in> set lines
           \<and> board s ! nat a = Some w \<and> board s ! nat b = Some w \<and> board s ! nat c = Some w)"
  proof (intro allI impI)
    fix w assume "winner (calculateWinner (board s)) = Some w"
    from calculateWinner_Some[OF this] c
    show "\<exists>a b c. winningLine s = [a, b, c] \<and> (a, b, c) \<in> set lines
           \<and> board s ! nat a = Some w \<and> board s ! nat b = Some w \<and> board s ! nat c = Some w"
      by (auto simp: consistent_def)
  qed
  have 5: "winner (calculateWinner (board s)) = None \<longrightarrow>
        (\<forall>l \<in> set lines. \<not> three_in_row (board s) l)"
    using calculateWinner_None[OF 0] by blast
  from 0 1 2 3 4 5 show ?thesis unfolding s_def by (intro conjI)
qed

theorem cached_fields_consistent_witness:
  "winner (calculateWinner (board (run [ApplyMove 0, ApplyMove 4, ApplyMove 1, ApplyMove 5,
      ApplyMove 2]))) = Some PlayerX
   \<and> gameOver (run [ApplyMove 0, ApplyMove 4, ApplyMove 1, ApplyMove 5, ApplyMove 2])
   \<and> winningLine (run [ApplyMove 0, ApplyMove 4, ApplyMove 1, ApplyMove 5, ApplyMove 2]) \<noteq> []
   \<and> (\<exists>a b c. winningLine (run [ApplyMove 0, ApplyMove 4, ApplyMove 1, ApplyMove 5,
          ApplyMove 2]) = [a, b, c] \<and> (a, b, c) \<in> set lines
        \<and> board (run [ApplyMove 0, ApplyMove 4, ApplyMove 1, ApplyMove 5, ApplyMove 2]) ! nat a
            = Some PlayerX
        \<and> board (run [ApplyMove 0, ApplyMove 4, ApplyMove 1, ApplyMove 5, ApplyMove 2]) ! nat b
            = Some PlayerX
        \<and> board (run [ApplyMove 0, ApplyMove 4, ApplyMove 1, ApplyMove 5, ApplyMove 2]) ! nat c
            = Some PlayerX)
   \<and> winner (calculateWinner (board (run [ApplyMove 0, ApplyMove 1, ApplyMove 2, ApplyMove 4,
        ApplyMove 3, ApplyMove 5, ApplyMove 7, ApplyMove 6, ApplyMove 8]))) = None
   \<and> None \<notin> set (board (run [ApplyMove 0, ApplyMove 1, ApplyMove 2, ApplyMove 4,
        ApplyMove 3, ApplyMove 5, ApplyMove 7, ApplyMove 6, ApplyMove 8]))
   \<and> gameOver (run [ApplyMove 0, ApplyMove 1, ApplyMove 2, ApplyMove 4,
        ApplyMove 3, ApplyMove 5, ApplyMove 7, ApplyMove 6, ApplyMove 8])
   \<and> winningLine (run [ApplyMove 0, ApplyMove 1, ApplyMove 2, ApplyMove 4,
        ApplyMove 3, ApplyMove 5, ApplyMove 7, ApplyMove 6, ApplyMove 8]) = []
   \<and> winner (calculateWinner (board (run [ApplyMove 0, ApplyMove 1, ApplyMove 2, ApplyMove 4,
        ApplyMove 3, ApplyMove 5, ApplyMove 7, ApplyMove 6]))) = None
   \<and> None \<in> set (board (run [ApplyMove 0, ApplyMove 1, ApplyMove 2, ApplyMove 4,
        ApplyMove 3, ApplyMove 5, ApplyMove 7, ApplyMove 6]))
   \<and> \<not> gameOver (run [ApplyMove 0, ApplyMove 1, ApplyMove 2, ApplyMove 4,
        ApplyMove 3, ApplyMove 5, ApplyMove 7, ApplyMove 6])"
proof -
  define cs where "cs = [ApplyMove 0, ApplyMove 4, ApplyMove 1, ApplyMove 5, ApplyMove 2]"
  define ds where "ds = [ApplyMove 0, ApplyMove 1, ApplyMove 2, ApplyMove 4, ApplyMove 3,
        ApplyMove 5, ApplyMove 7, ApplyMove 6, ApplyMove 8]"
  define es where "es = [ApplyMove 0, ApplyMove 1, ApplyMove 2, ApplyMove 4, ApplyMove 3,
        ApplyMove 5, ApplyMove 7, ApplyMove 6]"
  have w: "winner (calculateWinner (board (run cs))) = Some PlayerX"
    unfolding cs_def scenario1_run by (simp add: calculateWinner_def lines_def js_get_def)
  from cached_fields_consistent[of cs] w
  have win: "gameOver (run cs) \<and> winningLine (run cs) \<noteq> []
     \<and> (\<exists>a b c. winningLine (run cs) = [a, b, c] \<and> (a, b, c) \<in> set lines
        \<and> board (run cs) ! nat a = Some PlayerX \<and> board (run cs) ! nat b = Some PlayerX
        \<and> board (run cs) ! nat c = Some PlayerX)"
    by simp
  have d: "winner (calculateWinner (board (run ds))) = None" "None \<notin> set (board (run ds))"
    unfolding ds_def scenario2_run by (simp_all add: calculateWinner_def lines_def js_get_def)
  from cached_fields_consistent[of ds] d
  have draw: "gameOver (run ds) \<and> winningLine (run ds) = []"
    by simp
  have e: "winner (calculateWinner (board (run es))) = None" "None \<in> set (board (run es))"
    unfolding es_def before_draw_run by (simp_all add: calculateWinner_def lines_def js_get_def)
  from cached_fields_consistent[of es] e
  have ongoing: "\<not> gameOver (run es)"
    by simp
  from w win d draw e ongoing show ?thesis unfolding cs_def ds_def es_def by (intro conjI) simp_all
qed

text \<open>
  C5. \<open>newRound\<close> (the specification's \<open>startNewRound\<close>), from any state: the board is
  nine empty cells, \<open>gameOver\<close> is cleared, \<open>winningLine\<close> is empty and the status
  computed from the board is ongoing; the active player is X when the game was over, and
  the player it was otherwise; the scores are unchanged.
\<close>

theorem newRound_effect:
  "board (newRound s) = replicate 9 None
   \<and> \<not> gameOver (newRound s) \<and> winningLine (newRound s) = []
   \<and> result (newRound s) = Ongoing
   \<and> (gameOver s \<longrightarrow> currentPlayer (newRound s) = PlayerX)
   \<and> (\<not> gameOver s \<longrightarrow> currentPlayer (newRound s) = currentPlayer s)
   \<and> scores (newRound s) = scores s"
proof -
  have "result (newRound s) = Ongoing"
    by (simp add: result_def newRound_def calculateWinner_empty_board isBoardFull_empty_board)
  then show ?thesis by (simp add: newRound_def currentPlayer_def)
qed

theorem newRound_effect_witness:
  "gameOver (run [ApplyMove 0, ApplyMove 4, ApplyMove 1, ApplyMove 5, ApplyMove 2])
   \<and> board (newRound (run [ApplyMove 0, ApplyMove 4, ApplyMove 1, ApplyMove 5, ApplyMove 2]))
       = replicate 9 None
   \<and> result (newRound (run [ApplyMove 0, ApplyMove 4, ApplyMove 1, ApplyMove 5, ApplyMove 2]))
       = Ongoing
   \<and> currentPlayer (newRound (run [ApplyMove 0, ApplyMove 4, ApplyMove 1, ApplyMove 5,
         ApplyMove 2])) = PlayerX
   \<and> scores (newRound (run [ApplyMove 0, ApplyMove 4, ApplyMove 1, ApplyMove 5, ApplyMove 2]))
       = \<lparr>scoreX = 1, scoreO = 0, draws = 0\<rparr>
   \<and> \<not> gameOver (run [ApplyMove 0])
   \<and> currentPlayer (newRound (run [ApplyMove 0])) = PlayerO"
proof -
  define s where "s = run [ApplyMove 0, ApplyMove 4, ApplyMove 1, ApplyMove 5, ApplyMove 2]"
  define t where "t = run [ApplyMove 0]"
  have g: "gameOver s" "scores s = \<lparr>scoreX = 1, scoreO = 0, draws = 0\<rparr>"
    unfolding s_def scenario1_run by simp_all
  have "t = \<lparr>board = [Some PlayerX, None, None, None, None, None, None, None, None],
      xIsNext = False, scores = \<lparr>scoreX = 0, scoreO = 0, draws = 0\<rparr>,
      gameOver = False, winningLine = []\<rparr>"
    unfolding t_def by (simp add: run_eval)
  then have n: "\<not> gameOver t" "currentPlayer t = PlayerO"
    by (simp_all add: currentPlayer_def)
  from newRound_effect[of s] newRound_effect[of t] g n show ?thesis
    unfolding s_def t_def by simp
qed




text \<open>
  C7. On every board reached from the initial state by moves alone (X first, marks
  alternating, a move on an occupied cell or after the end of the game being ignored), the
  evaluator reports no winner while fewer than 5 marks are on the board.
\<close>

theorem no_winner_before_five_marks:
  assumes "moveCount (board (run (map ApplyMove moves))) < 5"
  shows "winner (calculateWinner (board (run (map ApplyMove moves)))) = None"
proof (rule ccontr)
  define s where "s = run (map ApplyMove moves)"
  assume "winner (calculateWinner (board (run (map ApplyMove moves)))) \<noteq> None"
  then obtain w where "winner (calculateWinner (board s)) = Some w"
    by (auto simp: s_def)
  then have three: "3 \<le> marksOf w (board s)" by (rule winner_three_marks)
  have "mark_balance s" unfolding s_def by (rule mark_balance_moves)
  then have bal: "marksOf PlayerO (board s) \<le> marksOf PlayerX (board s)"
      "marksOf PlayerX (board s) \<le> marksOf PlayerO (board s) + 1"
    by (auto simp: mark_balance_def split: if_splits)
  have "5 \<le> marksOf PlayerX (board s) + marksOf PlayerO (board s)"
    using three bal by (cases w) simp_all
  with assms show False by (simp add: s_def moveCount_marksOf)
qed

theorem no_winner_before_five_marks_witness:
  "moveCount (board (run (map ApplyMove [0, 4, 1, 5]))) < 5
   \<and> winner (calculateWinner (board (run (map ApplyMove [0, 4, 1, 5])))) = None"
proof -
  have r: "run (map ApplyMove [0, 4, 1, 5]) =
     \<lparr>board = [Some PlayerX, Some PlayerX, None, None, Some PlayerO, Some PlayerO,
               None, None, None],
      xIsNext = True, scores = \<lparr>scoreX = 0, scoreO = 0, draws = 0\<rparr>,
      gameOver = False, winningLine = []\<rparr>"
    by (simp add: run_eval)
  have c: "moveCount (board (run (map ApplyMove [0, 4, 1, 5]))) < 5"
    unfolding r by (simp add: moveCount_def)
  from c no_winner_before_five_marks[OF c] show ?thesis by simp
qed

text \<open>
  C8. From any state, a reset followed by a new round gives the same state as two resets:
  empty board, X to move, status ongoing, no winning line, all scores zero.
\<close>

theorem resetAll_then_newRound:
  "newRound (resetAll s) = resetAll (resetAll s)
   \<and> board (newRound (resetAll s)) = replicate 9 None
   \<and> currentPlayer (newRound (resetAll s)) = PlayerX
   \<and> result (newRound (resetAll s)) = Ongoing
   \<and> \<not> gameOver (newRound (resetAll s))
   \<and> winningLine (newRound (resetAll s)) = []
   \<and> scores (newRound (resetAll s)) = \<lparr>scoreX = 0, scoreO = 0, draws = 0\<rparr>"
proof -
  have "result (newRound (resetAll s)) = Ongoing"
    by (simp add: result_def newRound_def calculateWinner_empty_board isBoardFull_empty_board)
  then show ?thesis by (simp add: newRound_def resetAll_def currentPlayer_def)
qed

theorem resetAll_then_newRound_witness:
  "newRound (resetAll (run [ApplyMove 0, ApplyMove 4, ApplyMove 1, ApplyMove 5, ApplyMove 2]))
     = resetAll (resetAll (run [ApplyMove 0, ApplyMove 4, ApplyMove 1, ApplyMove 5,
         ApplyMove 2]))
   \<and> newRound (resetAll (run [ApplyMove 0, ApplyMove 4, ApplyMove 1, ApplyMove 5, ApplyMove 2]))
     = initial_state"
proof -
  define s where "s = run [ApplyMove 0, ApplyMove 4, ApplyMove 1, ApplyMove 5, ApplyMove 2]"
  have "resetAll (resetAll s) = initial_state"
    unfolding s_def scenario1_run by (simp add: resetAll_def initial_state_def)
  with resetAll_then_newRound[of s] show ?thesis unfolding s_def by simp
qed

text \<open>
  C9, as amended. \<open>currentPlayer\<close> is read from the stored flag \<open>xIsNext\<close>, not from
  the move count. In every state reached from the initial state by moves, new rounds and
  resets, where a new round is only started when the game is over or X is to move: while
  the game is not over, the current player is X if and only if the move count is even; once
  the game is over the flag still names the player who made the last move, so the current
  player is X if and only if the move count is odd.
\<close>

theorem current_player_parity:
  assumes "restarts_keep_turn initial_state cs"
  shows "currentPlayer (run cs) = PlayerX
     \<longleftrightarrow> (even (moveCount (board (run cs))) \<noteq> gameOver (run cs))"
proof -
  have "turn_parity (run cs)"
    unfolding run_def using turn_parity_initial assms by (rule turn_parity_foldl)
  then show ?thesis by (simp add: turn_parity_def currentPlayer_def)
qed

theorem current_player_parity_witness:
  "restarts_keep_turn initial_state [ApplyMove 0, ApplyMove 4, StartNewRound, ApplyMove 8]
   \<and> \<not> gameOver (run [ApplyMove 0, ApplyMove 4, StartNewRound, ApplyMove 8])
   \<and> currentPlayer (run [ApplyMove 0, ApplyMove 4, StartNewRound, ApplyMove 8]) = PlayerO
   \<and> odd (moveCount (board (run [ApplyMove 0, ApplyMove 4, StartNewRound, ApplyMove 8])))"
proof -
  define cs where "cs = [ApplyMove 0, ApplyMove 4, StartNewRound, ApplyMove 8]"
  have safe: "restarts_keep_turn initial_state cs"
    unfolding cs_def by (simp add: run_eval)
  have g: "\<not> gameOver (run cs)"
    unfolding cs_def by (simp add: run_eval)
  have p: "currentPlayer (run cs) = PlayerO"
    unfolding cs_def by (simp add: run_eval)
  from current_player_parity[OF safe] g p have "odd (moveCount (board (run cs)))"
    by simp
  with safe g p show ?thesis unfolding cs_def by simp
qed

text \<open>
  C9 as stated fails. After X's first move, a new round empties the board and keeps O to
  move: the move count 0 is even and the current player is O. And after X wins with the
  fifth mark, the flag is not toggled: the move count 5 is odd and the current player is X.
\<close>

theorem current_player_parity_counterexample:
  "\<not> (currentPlayer (run [ApplyMove 0, StartNewRound]) = PlayerX
        \<longleftrightarrow> even (moveCount (board (run [ApplyMove 0, StartNewRound]))))
   \<and> \<not> (currentPlayer (run [ApplyMove 0, ApplyMove 4, ApplyMove 1, ApplyMove 5, ApplyMove 2]) = PlayerX
        \<longleftrightarrow> even (moveCount (board (run [ApplyMove 0, ApplyMove 4, ApplyMove 1, ApplyMove 5,
              ApplyMove 2]))))"
proof -
  have r: "run [ApplyMove 0, StartNewRound] =
     \<lparr>board = [None, None, None, None, None, None, None, None, None],
      xIsNext = False, scores = \<lparr>scoreX = 0, scoreO = 0, draws = 0\<rparr>,
      gameOver = False, winningLine = []\<rparr>"
    by (simp add: run_eval)
  show ?thesis unfolding r scenario1_run
    by (simp add: currentPlayer_def moveCount_def)
qed

text \<open>
  C10. On a board of nine cells, a move on an integer index below 0 or above 8 reads
  \<^verbatim>\<open>undefined\<close>, which is not the empty mark, so the guard returns at once and the state is
  unchanged.
\<close>

theorem out_of_range_is_noop:
  assumes "length (board s) = 9" and "i < 0 \<or> 8 < i"
  shows "js_get (board s) i = None \<and> handleCellClick i s = s"
  using assms by (auto simp: handleCellClick_def js_get_def)

theorem out_of_range_is_noop_witness:
  "length (board initial_state) = 9 \<and> ((-1::int) < 0 \<or> (8::int) < -1)
   \<and> js_get (board initial_state) (-1) = None
   \<and> handleCellClick (-1) initial_state = initial_state
   \<and> js_get (board initial_state) 9 = None
   \<and> handleCellClick 9 initial_state = initial_state"
proof -
  have len: "length (board initial_state) = 9" by (simp add: initial_state_def)
  have a: "(-1::int) < 0 \<or> (8::int) < -1" by simp
  have b: "(9::int) < 0 \<or> (8::int) < 9" by simp
  from out_of_range_is_noop[OF len a] out_of_range_is_noop[OF len b] len a
  show ?thesis by simp
qed

end
